theory Spec2Isabelle
  imports Main "HOL-Library.Word" "HOL-Library.Log_Nat"
begin

unbundle bit_operations_syntax

section \<open>BlueShare core: data model\<close>

text \<open>
  The model follows \<^verbatim>\<open>blueshare/core/blueshare.c\<close> and
  \<^verbatim>\<open>blueshare/core/zero.c\<close>. A C struct is a record, a C enum a datatype,
  a NULL-terminated chain of \<^verbatim>\<open>next\<close> pointers a list (first node first).
  The \<^verbatim>\<open>parent\<close> and \<^verbatim>\<open>peers\<close> pointers of a device are read
  by no function and are left out. \<^verbatim>\<open>time(NULL)\<close> is a parameter \<open>now\<close>;
  \<^verbatim>\<open>time_t\<close> is \<open>int\<close>, \<^verbatim>\<open>size_t\<close> counters are \<open>nat\<close>.
\<close>

subsection \<open>IEEE 754 binary64 values (the C type double)\<close>

text \<open>
  A double is a finite rational of the form \<open>m * 2^p\<close> with \<open>\<bar>m\<bar> < 2^53\<close> and
  \<open>-1074 \<le> p \<le> 971\<close>, an infinity, or NaN. Every arithmetic operation computes the exact
  rational result and rounds it once, to nearest, ties to even (the default rounding mode).
  The two zeros are identified: they compare equal in C, and the only zero divisors of this
  program are converted unsigned counts, which are \<open>+0.0\<close>.
\<close>

datatype double = Finite rat | PosInf | NegInf | NaN

definition pow2 :: "int \<Rightarrow> rat" where
  "pow2 k = (if 0 \<le> k then of_int (2 ^ nat k) else 1 / of_int (2 ^ nat (- k)))"

text \<open>\<open>ilog2 a\<close> is \<open>\<lfloor>log2 a\<rfloor>\<close> for a positive rational \<open>a\<close>.\<close>

definition ilog2 :: "rat \<Rightarrow> int" where
  "ilog2 a = (let (n, d) = quotient_of a; k = bitlen n - bitlen d
              in if pow2 k \<le> a then k else k - 1)"

text \<open>Rounding to the nearest integer, ties to the even one.\<close>

definition rne :: "rat \<Rightarrow> int" where
  "rne x = (let f = \<lfloor>x\<rfloor>; r = x - of_int f
            in if r < 1 / 2 then f else if 1 / 2 < r then f + 1
               else if even f then f else f + 1)"

text \<open>
  Rounding an exact result to binary64: the unit in the last place is \<open>2^p\<close> with
  \<open>p = max (e - 52) (-1074)\<close> for \<open>e = \<lfloor>log2 \<bar>q\<bar>\<rfloor>\<close> (the second bound is the
  subnormal range). The result overflows to an infinity when the rounded magnitude reaches
  \<open>2^1024\<close>, that is when \<open>e \<ge> 1024\<close>, or \<open>e = 1023\<close> and the significand rounds up
  to \<open>2^53\<close>.
\<close>

definition round_double :: "rat \<Rightarrow> double" where
  "round_double q =
     (if q = 0 then Finite 0
      else let a = \<bar>q\<bar>;
               e = ilog2 a;
               p = max (e - 52) (- 1074);
               m = rne (a / pow2 p)
           in if 1024 \<le> e \<or> (e = 1023 \<and> 2 ^ 53 \<le> m)
              then (if 0 < q then PosInf else NegInf)
              else Finite (sgn q * (of_int m * pow2 p)))"

fun dadd :: "double \<Rightarrow> double \<Rightarrow> double" where
  "dadd NaN y = NaN"
| "dadd x NaN = NaN"
| "dadd (Finite a) (Finite b) = round_double (a + b)"
| "dadd PosInf NegInf = NaN"
| "dadd NegInf PosInf = NaN"
| "dadd PosInf y = PosInf"
| "dadd NegInf y = NegInf"
| "dadd (Finite a) y = y"

fun dneg :: "double \<Rightarrow> double" where
  "dneg (Finite a) = Finite (- a)"
| "dneg PosInf = NegInf"
| "dneg NegInf = PosInf"
| "dneg NaN = NaN"

text \<open>\<open>signed_inf a x\<close>: the infinity \<open>x\<close> with its sign kept for \<open>a > 0\<close>, flipped for
  \<open>a < 0\<close>.\<close>

definition signed_inf :: "rat \<Rightarrow> double \<Rightarrow> double" where
  "signed_inf a x = (if 0 < a then x else dneg x)"

fun dmul :: "double \<Rightarrow> double \<Rightarrow> double" where
  "dmul NaN y = NaN"
| "dmul x NaN = NaN"
| "dmul (Finite a) (Finite b) = round_double (a * b)"
| "dmul (Finite a) y = (if a = 0 then NaN else signed_inf a y)"
| "dmul x (Finite b) = (if b = 0 then NaN else signed_inf b x)"
| "dmul PosInf y = y"
| "dmul NegInf y = dneg y"

fun ddiv :: "double \<Rightarrow> double \<Rightarrow> double" where
  "ddiv NaN y = NaN"
| "ddiv x NaN = NaN"
| "ddiv (Finite a) (Finite b) =
     (if b = 0 then (if a = 0 then NaN else signed_inf a PosInf)
      else round_double (a / b))"
| "ddiv (Finite a) y = Finite 0"
| "ddiv x (Finite b) = (if 0 \<le> b then x else dneg x)"
| "ddiv x y = NaN"

text \<open>A decimal literal of the source denotes the double nearest to it.\<close>

definition dlit :: "rat \<Rightarrow> double" where
  "dlit q = round_double q"

text \<open>Conversions: an unsigned integer converts to the nearest double; a double converts
  to \<^verbatim>\<open>uint64_t\<close> by truncation towards zero. When the truncated value does not fit
  (or the operand is an infinity or NaN) the conversion has no defined result (C11 6.3.1.4;
  an unspecified value under Annex F): \<open>None\<close>. The call goes on either way.\<close>

definition double_of_u64 :: "64 word \<Rightarrow> double" where
  "double_of_u64 w = round_double (of_nat (unat w))"

definition double_of_size :: "nat \<Rightarrow> double" where
  "double_of_size n = round_double (of_nat n)"

fun u64_of_double :: "double \<Rightarrow> 64 word option" where
  "u64_of_double (Finite q) =
     (if - 1 < q \<and> q < 2 ^ 64 then Some (word_of_int (if q < 0 then 0 else \<lfloor>q\<rfloor>))
      else None)"
| "u64_of_double x = None"

subsection \<open>Enums and structs of blueshare.c\<close>

datatype trinary_state_t = STATE_NO | STATE_YES | STATE_MAYBE | STATE_EPSILON

record nsigii_symbol_t =
  state :: trinary_state_t
  entropy :: double
  timestamp :: int

datatype network_topology_t = TOPOLOGY_STAR | TOPOLOGY_BUS | TOPOLOGY_MESH | TOPOLOGY_HYBRID

datatype device_role_t = ROLE_HOST | ROLE_CLIENT | ROLE_RELAY | ROLE_OBSERVER

datatype payment_state_t =
  PAYMENT_PENDING | PAYMENT_AUTHORIZED | PAYMENT_PROCESSING | PAYMENT_SETTLED | PAYMENT_FAILED

record device_node_t =
  device_id :: string
  device_name :: string
  role :: device_role_t
  rssi :: "8 word"
  mtu :: "16 word"
  bytes_sent :: "64 word"
  bytes_received :: "64 word"
  bandwidth_mbps :: double
  cost_per_mb :: double
  balance_usd :: double
  payment_status :: payment_state_t
  consent_state :: nsigii_symbol_t
  last_seen :: int

record blueshare_session_t =
  session_id :: string
  topology :: network_topology_t
  devices :: "device_node_t list"
  device_count :: nat
  total_bandwidth_mbps :: double
  fair_share_mbps :: double
  total_cost_usd :: double
  cost_per_device :: double
  session_start :: int
  session_end :: int
  is_active :: "8 word"
  transparency_verified :: "8 word"
  fairness_verified :: "8 word"
  privacy_verified :: "8 word"

text \<open>The local \<^verbatim>\<open>lightning_payment_t\<close> of \<^verbatim>\<open>process_lightning_payment\<close>.
  Its invoice text is printed and dropped, and its payment hash is never written; both are
  left out.\<close>

record lightning_payment_t =
  amount_satoshi :: "64 word option"
  expiry :: int
  status :: payment_state_t

section \<open>NSIGII consensus\<close>

text \<open>The comparison \<^verbatim>\<open>device->rssi > -70\<close> is made on \<^verbatim>\<open>int\<close>: the
  \<^verbatim>\<open>uint8_t\<close> field is promoted to its value \<open>uint\<close> in \<open>0..255\<close>.\<close>

definition request_device_consent ::
  "int \<Rightarrow> device_node_t \<Rightarrow> string \<Rightarrow> trinary_state_t \<times> device_node_t" where
  "request_device_consent now device request_type =
     (let st = (if uint (rssi device) > - 70 then STATE_YES
                else if uint (rssi device) < - 90 then STATE_NO
                else STATE_MAYBE);
          device' = device\<lparr>consent_state := (consent_state device)\<lparr>state := st, timestamp := now\<rparr>\<rparr>
      in (state (consent_state device'), device'))"

text \<open>The counting loop of \<^verbatim>\<open>verify_network_consensus\<close>; the accumulator is
  \<open>(yes_count, no_count, maybe_count)\<close>.\<close>

fun count_consent :: "device_node_t list \<Rightarrow> nat \<times> nat \<times> nat \<Rightarrow> nat \<times> nat \<times> nat" where
  "count_consent [] acc = acc"
| "count_consent (current # rest) (yes_count, no_count, maybe_count) =
     count_consent rest
       (case state (consent_state current) of
          STATE_YES \<Rightarrow> (yes_count + 1, no_count, maybe_count)
        | STATE_NO \<Rightarrow> (yes_count, no_count + 1, maybe_count)
        | STATE_MAYBE \<Rightarrow> (yes_count, no_count, maybe_count + 1)
        | STATE_EPSILON \<Rightarrow> (yes_count, no_count, maybe_count))"

text \<open>The function returns 0 or 1; which of its three verdict lines it printed is kept
  beside the return value.\<close>

datatype consensus_verdict = CONSENSUS_REJECTED | CONSENSUS_VERIFIED | CONSENSUS_PENDING

definition verify_network_consensus :: "blueshare_session_t \<Rightarrow> consensus_verdict \<times> 8 word" where
  "verify_network_consensus session =
     (case count_consent (devices session) (0, 0, 0) of
        (yes_count, no_count, maybe_count) \<Rightarrow>
          if no_count > 0 then (CONSENSUS_REJECTED, 0)
          else if yes_count \<ge> device_count session div 2 then (CONSENSUS_VERIFIED, 1)
          else (CONSENSUS_PENDING, 0))"

section \<open>Topology and bandwidth\<close>

text \<open>The parameter \<^verbatim>\<open>device_count\<close> of \<^verbatim>\<open>determine_topology\<close> is named
  \<open>dev_count\<close>, and \<^verbatim>\<open>devices\<close> is \<open>devs\<close>; the first loop counts the hosts.\<close>

fun count_hosts :: "device_node_t list \<Rightarrow> nat \<Rightarrow> nat" where
  "count_hosts [] host_count = host_count"
| "count_hosts (current # rest) host_count =
     count_hosts rest (if role current = ROLE_HOST then host_count + 1 else host_count)"

definition determine_topology :: "nat \<Rightarrow> device_node_t list \<Rightarrow> network_topology_t" where
  "determine_topology dev_count devs =
     (let host_count = count_hosts devs 0
      in if host_count = 0 then TOPOLOGY_STAR
         else if dev_count \<le> 3 \<and> host_count = 1 then TOPOLOGY_STAR
         else if dev_count \<le> 5 \<and> host_count \<le> 2 then TOPOLOGY_BUS
         else if host_count \<ge> 2 then TOPOLOGY_MESH
         else TOPOLOGY_HYBRID)"

fun sum_host_bandwidth :: "device_node_t list \<Rightarrow> double \<Rightarrow> double" where
  "sum_host_bandwidth [] total_available = total_available"
| "sum_host_bandwidth (current # rest) total_available =
     sum_host_bandwidth rest
       (if role current = ROLE_HOST then dadd total_available (bandwidth_mbps current)
        else total_available)"

definition calculate_fair_bandwidth :: "blueshare_session_t \<Rightarrow> blueshare_session_t" where
  "calculate_fair_bandwidth session =
     (let total_available = sum_host_bandwidth (devices session) (dlit 0)
      in session\<lparr>total_bandwidth_mbps := total_available,
                 fair_share_mbps :=
                   ddiv (dmul total_available (dlit 2)) (double_of_size (device_count session))\<rparr>)"

section \<open>Cost calculation and payment\<close>

definition force_newtons :: double where "force_newtons = dlit (125 / 100)"
definition distance_meters :: double where "distance_meters = dlit 15"
definition cosine_theta :: double where "cosine_theta = dlit (866 / 1000)"
definition usd_per_joule :: double where "usd_per_joule = dlit (1 / 100000)"

definition work_per_mb :: double where
  "work_per_mb = dmul (dmul force_newtons distance_meters) cosine_theta"

definition mb_used :: "device_node_t \<Rightarrow> double" where
  "mb_used current =
     ddiv (double_of_u64 (bytes_sent current + bytes_received current))
          (dmul (dlit 1024) (dlit 1024))"

text \<open>The loop of \<^verbatim>\<open>calculate_cost_sharing\<close>: it writes every node's balance and
  adds the cost to the session's running total.\<close>

fun cost_loop :: "device_node_t list \<Rightarrow> double \<Rightarrow> device_node_t list \<times> double" where
  "cost_loop [] total_cost = ([], total_cost)"
| "cost_loop (current # rest) total_cost =
     (let device_cost = dmul (dmul (mb_used current) work_per_mb) usd_per_joule;
          (rest', total_cost') = cost_loop rest (dadd total_cost device_cost)
      in (current\<lparr>balance_usd := device_cost\<rparr> # rest', total_cost'))"

definition calculate_cost_sharing :: "blueshare_session_t \<Rightarrow> blueshare_session_t" where
  "calculate_cost_sharing session =
     (case cost_loop (devices session) (dlit 0) of
        (devs', total_cost) \<Rightarrow>
          session\<lparr>devices := devs',
                  total_cost_usd := total_cost,
                  cost_per_device := ddiv total_cost (double_of_size (device_count session)),
                  transparency_verified := 1,
                  fairness_verified := 1\<rparr>)"

definition btc_per_usd :: double where "btc_per_usd = ddiv (dlit 1) (dlit 40000)"
definition satoshi_per_btc :: "64 word" where "satoshi_per_btc = 100000000"

text \<open>Returns the return value, the device as left by the call, and the local payment
  as it stands when the function returns.\<close>

definition process_lightning_payment ::
  "int \<Rightarrow> device_node_t \<Rightarrow> double \<Rightarrow> 8 word \<times> device_node_t \<times> lightning_payment_t" where
  "process_lightning_payment now device amount_usd =
     (let payment = \<lparr>amount_satoshi =
                        u64_of_double (dmul (dmul amount_usd btc_per_usd)
                                            (double_of_u64 satoshi_per_btc)),
                      expiry = now + 600,
                      status = PAYMENT_AUTHORIZED\<rparr>
      in (1, device\<lparr>payment_status := PAYMENT_SETTLED\<rparr>, payment))"

section \<open>Constitutional compliance\<close>

definition verify_constitutional_compliance ::
  "blueshare_session_t \<Rightarrow> 8 word \<times> blueshare_session_t" where
  "verify_constitutional_compliance session =
     (let passed = (1 :: 8 word);
          passed = (if transparency_verified session = 0 then 0 else passed);
          passed = (if fairness_verified session = 0 then 0 else passed)
      in (passed, session\<lparr>privacy_verified := 1\<rparr>))"

section \<open>Phantom encoder (zero.c)\<close>

text \<open>
  Byte arrays are lists of bytes; the arrays of the structs below have 32 elements.
  OpenSSL's \<^verbatim>\<open>SHA256\<close> is not part of the repository: the functions that call it
  take it as the parameter \<open>SHA256\<close>, from the message to the digest it writes.
  The field \<^verbatim>\<open>proof\<close> of \<^verbatim>\<open>zero_proof_t\<close> is named \<open>proof_digest\<close>, and the
  fields of \<^verbatim>\<open>zero_key_t\<close> carry the prefix \<open>key_\<close>.
\<close>

type_synonym byte = "8 word"

definition SHA256_DIGEST_LENGTH :: nat where
  "SHA256_DIGEST_LENGTH = 32"

record zero_id_t =
  version :: byte
  hash :: "byte list"
  salt :: "byte list"
  created :: int


record zero_proof_t =
  proof_digest :: "byte list"
  challenge :: "byte list"
  proof_timestamp :: int

record zero_context_t =
  algorithm :: string
  master_key :: "byte list"
  context_salt :: "byte list"

text \<open>\<^verbatim>\<open>create_proof\<close> copies \<open>challenge_len\<close> bytes of the caller's buffer into the
  zeroed 32-byte array \<^verbatim>\<open>proof.challenge\<close> and hashes the 32 bytes of the ZeroID hash
  followed by the same \<open>challenge_len\<close> bytes. A length beyond the array, or beyond the
  caller's buffer, is undefined behaviour: \<open>None\<close>.\<close>

definition create_proof ::
  "(byte list \<Rightarrow> byte list) \<Rightarrow> int \<Rightarrow> zero_context_t \<Rightarrow> zero_id_t \<Rightarrow> byte list \<Rightarrow> nat
     \<Rightarrow> zero_proof_t option" where
  "create_proof SHA256 now ctx zid chal challenge_len =
     (if 32 < challenge_len \<or> length chal < challenge_len then None
      else let combined = take 32 (hash zid) @ take challenge_len chal
           in Some \<lparr>proof_digest = SHA256 combined,
                     challenge = take challenge_len chal @ replicate (32 - challenge_len) 0,
                     proof_timestamp = now\<rparr>)"

text \<open>\<^verbatim>\<open>verify_proof\<close> hashes the ZeroID hash followed by all 32 bytes of
  \<^verbatim>\<open>proof->challenge\<close> and compares the 32 digest bytes without an early exit:
  \<^verbatim>\<open>matches &= (proof->proof[i] == expected_proof[i])\<close>.\<close>

definition verify_proof ::
  "(byte list \<Rightarrow> byte list) \<Rightarrow> zero_context_t \<Rightarrow> zero_proof_t \<Rightarrow> zero_id_t \<Rightarrow> int" where
  "verify_proof SHA256 ctx zproof zid =
     (let combined = take 32 (hash zid) @ take 32 (challenge zproof);
          expected_proof = SHA256 combined
      in fold (\<lambda>i matches. matches AND (if proof_digest zproof ! i = expected_proof ! i then 1 else 0))
              [0..<SHA256_DIGEST_LENGTH] 1)"






section \<open>The specification's wording, for comparison\<close>

text \<open>The aggregation rule of the specification (section 4.3): any NO rejects; otherwise
  the session is accepted when the YES votes reach \<open>\<lceil>device_count / 2\<rceil>\<close>; otherwise it is
  pending.\<close>

definition votes :: "trinary_state_t \<Rightarrow> blueshare_session_t \<Rightarrow> nat" where
  "votes v session = length (filter (\<lambda>d. state (consent_state d) = v) (devices session))"

definition consensus_as_specified :: "blueshare_session_t \<Rightarrow> consensus_verdict" where
  "consensus_as_specified session =
     (if votes STATE_NO session > 0 then CONSENSUS_REJECTED
      else if votes STATE_YES session \<ge> (device_count session + 1) div 2 then CONSENSUS_VERIFIED
      else CONSENSUS_PENDING)"

text \<open>The conversion of the specification (section 4.7):
  \<open>satoshi = amount_usd / rate * 10^8\<close> with banker's rounding.\<close>

definition satoshi_as_specified :: "rat \<Rightarrow> rat \<Rightarrow> int" where
  "satoshi_as_specified rate_usd_per_btc amount_usd = rne (amount_usd / rate_usd_per_btc * 10 ^ 8)"

text \<open>The cost formula as the specification words it (section 4.6):
  \<open>balance = mb_used * F_NEWTONS * D_METERS * COS_THETA * USD_PER_JOULE\<close> with
  \<open>mb_used = (bytes_sent + bytes_received) / (1024 * 1024)\<close>, the sum being the sum of the
  two counts. \<open>cost_as_claimed\<close> takes the product on doubles from left to right, as C reads
  \<^verbatim>\<open>a * b * c * d * e\<close>; \<open>cost_exact\<close> is the same product in exact arithmetic.\<close>

definition mb_as_claimed :: "device_node_t \<Rightarrow> double" where
  "mb_as_claimed d =
     ddiv (round_double (of_nat (unat (bytes_sent d) + unat (bytes_received d))))
          (dmul (dlit 1024) (dlit 1024))"

definition cost_as_claimed :: "device_node_t \<Rightarrow> double" where
  "cost_as_claimed d =
     dmul (dmul (dmul (dmul (mb_as_claimed d) (dlit (125 / 100))) (dlit 15)) (dlit (866 / 1000)))
          (dlit (1 / 100000))"

definition cost_exact :: "device_node_t \<Rightarrow> rat" where
  "cost_exact d =
     of_nat (unat (bytes_sent d) + unat (bytes_received d)) / (1024 * 1024)
       * (125 / 100) * 15 * (866 / 1000) * (1 / 100000)"

text \<open>Invariant C2 of the specification on the stored doubles:
  \<open>fair_share * device_count = 2 * total_host_bandwidth\<close>.\<close>

definition fair_share_invariant :: "blueshare_session_t \<Rightarrow> bool" where
  "fair_share_invariant session =
     (dmul (fair_share_mbps session) (double_of_size (device_count session))
        = dmul (dlit 2) (total_bandwidth_mbps session))"

section \<open>Concrete sessions\<close>

text \<open>A zero-initialised device node, and the four devices of the demo's \<^verbatim>\<open>main\<close>.\<close>

definition zero_device :: device_node_t where
  "zero_device =
     \<lparr>device_id = [], device_name = [], role = ROLE_HOST, rssi = 0, mtu = 0,
      bytes_sent = 0, bytes_received = 0, bandwidth_mbps = Finite 0, cost_per_mb = Finite 0,
      balance_usd = Finite 0, payment_status = PAYMENT_PENDING,
      consent_state = \<lparr>state = STATE_NO, entropy = Finite 0, timestamp = 0\<rparr>,
      last_seen = 0\<rparr>"

definition device1 :: device_node_t where
  "device1 = zero_device\<lparr>device_id := ''dev-001-host'', device_name := ''Alice'',
     role := ROLE_HOST, rssi := - 65, bandwidth_mbps := dlit 10,
     bytes_sent := 5242880, bytes_received := 2097152, cost_per_mb := dlit (1 / 10000)\<rparr>"

definition device2 :: device_node_t where
  "device2 = zero_device\<lparr>device_id := ''dev-002-client'', device_name := ''Bob'',
     role := ROLE_CLIENT, rssi := - 72, bytes_sent := 1048576, bytes_received := 10485760\<rparr>"

definition device3 :: device_node_t where
  "device3 = zero_device\<lparr>device_id := ''dev-003-client'', device_name := ''Carol'',
     role := ROLE_CLIENT, rssi := - 68, bytes_sent := 524288, bytes_received := 3145728\<rparr>"

definition device4 :: device_node_t where
  "device4 = zero_device\<lparr>device_id := ''dev-004-relay'', device_name := ''Dave'',
     role := ROLE_RELAY, rssi := - 95, bytes_sent := 2097152, bytes_received := 1048576\<rparr>"

definition zero_session :: blueshare_session_t where
  "zero_session =
     \<lparr>session_id = [], topology = TOPOLOGY_STAR, devices = [], device_count = 0,
      total_bandwidth_mbps = Finite 0, fair_share_mbps = Finite 0, total_cost_usd = Finite 0,
      cost_per_device = Finite 0, session_start = 0, session_end = 0, is_active = 0,
      transparency_verified = 0, fairness_verified = 0, privacy_verified = 0\<rparr>"

definition demo_session :: blueshare_session_t where
  "demo_session = zero_session\<lparr>session_id := ''blueshare-demo-001'',
     devices := [device1, device2, device3, device4], device_count := 4, is_active := 1\<rparr>"

definition with_vote :: "trinary_state_t \<Rightarrow> device_node_t \<Rightarrow> device_node_t" where
  "with_vote v d = d\<lparr>consent_state := (consent_state d)\<lparr>state := v\<rparr>\<rparr>"

text \<open>Three devices, one of which said YES and two MAYBE.\<close>

definition one_yes_of_three :: blueshare_session_t where
  "one_yes_of_three = zero_session\<lparr>
     devices := [with_vote STATE_YES device1, with_vote STATE_MAYBE device2,
                 with_vote STATE_MAYBE device3],
     device_count := 3\<rparr>"

text \<open>Eleven devices: one host offering 25 Mbps and ten clients
  \<^verbatim>\<open>dev-client-0\<close>, ..., \<^verbatim>\<open>dev-client-9\<close>.\<close>

definition client :: "nat \<Rightarrow> device_node_t" where
  "client k = device2\<lparr>device_id := ''dev-client-'' @ [char_of (48 + k)]\<rparr>"

definition eleven_devices :: blueshare_session_t where
  "eleven_devices = zero_session\<lparr>
     devices := device1\<lparr>bandwidth_mbps := dlit 25\<rparr> # map client [0..<10],
     device_count := 11\<rparr>"

text \<open>A device whose two byte counters add up to \<open>2^64 + 1048576\<close>, alone in a session.\<close>

definition wrapping_device :: device_node_t where
  "wrapping_device = zero_device\<lparr>device_id := ''dev-wrap'', device_name := ''Erin'',
     role := ROLE_CLIENT, bytes_sent := 18446744073709551615, bytes_received := 1048577\<rparr>"

definition wrapping_session :: blueshare_session_t where
  "wrapping_session = zero_session\<lparr>devices := [wrapping_device], device_count := 1\<rparr>"


definition alice_zid :: zero_id_t where
  "alice_zid = \<lparr>version = 1, hash = map of_nat [0..<32], salt = replicate 32 7, created = 0\<rparr>"


definition zero_context :: zero_context_t where
  "zero_context = \<lparr>algorithm = ''SHA256-HMAC'', master_key = replicate 32 0,
                    context_salt = replicate 32 0\<rparr>"

text \<open>A stand-in digest function for concrete runs: the first 32 bytes of the message
  (padded with zeros), each increased by one.\<close>

definition toy_digest :: "byte list \<Rightarrow> byte list" where
  "toy_digest msg = map (\<lambda>b. b + 1) (take 32 (msg @ replicate 32 0))"

section \<open>Checks of the double model\<close>

text \<open>Three checks of \<open>round_double\<close> come first: concrete values, that a finite result
  lies on the grid of the doubles within half a unit in the last place of the exact value
  (\<open>round_double_grid\<close>, and \<open>round_double_relative\<close> for the relative error in the
  normal range), and that every double rounds to itself (\<open>round_double_exact\<close>). The model reproduces the well-known binary64 values of \<open>0.1\<close> and of
  \<open>0.1 + 0.2\<close>, which is not the double \<open>0.3\<close>.\<close>

lemma double_one_tenth: "dlit (1 / 10) = Finite (3602879701896397 / 36028797018963968)"
  by code_simp

lemma double_sum_tenths:
  "dadd (dlit (1 / 10)) (dlit (2 / 10)) = Finite (1351079888211149 / 4503599627370496)
   \<and> dlit (3 / 10) = Finite (5404319552844595 / 18014398509481984)"
  by code_simp

lemma pow2_pos: "0 < pow2 k"
  by (simp add: pow2_def)

lemma pow2_power_int: "pow2 k = power_int 2 k"
  by (simp add: pow2_def power_int_def inverse_eq_divide power_one_over)

lemma pow2_add: "pow2 (i + j) = pow2 i * pow2 j"
  by (simp add: pow2_power_int power_int_add)

lemma pow2_nat: "pow2 (int n) = 2 ^ n"
  by (simp add: pow2_def)

lemma floor_frame: "of_int \<lfloor>x\<rfloor> \<le> x \<and> x < of_int \<lfloor>x\<rfloor> + (1 :: rat)"
  using floor_correct [of x] by simp

lemma rne_nearest: "\<bar>of_int (rne x) - x\<bar> \<le> \<bar>of_int k - x\<bar>"
proof -
  define f where "f = \<lfloor>x\<rfloor>"
  have fx: "of_int f \<le> x" "x < of_int f + 1" using floor_frame [of x] by (simp_all add: f_def)
  consider "k \<le> f" | "f + 1 \<le> k" by linarith
  then show ?thesis
  proof cases
    case 1
    then have "(of_int k :: rat) \<le> of_int f" by simp
    then show ?thesis using fx
      by (auto simp: rne_def Let_def f_def[symmetric])
  next
    case 2
    then have "(of_int f :: rat) + 1 \<le> of_int k" by (metis of_int_1 of_int_add of_int_le_iff)
    then show ?thesis using fx
      by (auto simp: rne_def Let_def f_def[symmetric])
  qed
qed

lemma rne_half: "\<bar>of_int (rne x) - x\<bar> \<le> 1 / 2"
  using floor_frame [of x] by (auto simp: rne_def Let_def)

lemma rne_tie_even: "\<bar>of_int (rne x) - x\<bar> = 1 / 2 \<Longrightarrow> even (rne x)"
  using floor_frame [of x] by (auto simp: rne_def Let_def split: if_splits)

lemma rne_of_int: "rne (of_int k) = k"
  by (simp add: rne_def)

lemma bitlen_pow2_bounds:
  assumes "0 < n"
  shows "pow2 (bitlen n - 1) \<le> of_int n" and "of_int n < pow2 (bitlen n)"
proof -
  have b: "1 \<le> bitlen n" using assms by (simp add: bitlen_alt_def)
  have "2 ^ nat (bitlen n - 1) \<le> n" "n < 2 ^ nat (bitlen n)"
    using bitlen_bounds [OF assms] by simp_all
  then have "(of_int (2 ^ nat (bitlen n - 1)) :: rat) \<le> of_int n"
    and "(of_int n :: rat) < of_int (2 ^ nat (bitlen n))"
    by (simp_all only: of_int_le_iff of_int_less_iff)
  then show "pow2 (bitlen n - 1) \<le> of_int n" and "of_int n < pow2 (bitlen n)"
    using b by (simp_all add: pow2_def)
qed

lemma ilog2_bounds:
  assumes "0 < a"
  shows "pow2 (ilog2 a) \<le> a \<and> a < pow2 (ilog2 a + 1)"
proof -
  obtain n d where q: "quotient_of a = (n, d)" by (cases "quotient_of a")
  have d: "0 < d" using q by (rule quotient_of_denom_pos)
  have a: "a = of_int n / of_int d" using q by (rule quotient_of_div)
  have n: "0 < n" using assms d a by (simp add: zero_less_divide_iff)
  define k where "k = bitlen n - bitlen d"
  have dr: "(0 :: rat) < of_int d" using d by simp
  have up: "a < pow2 (k + 1)"
  proof -
    have "of_int n < pow2 (bitlen n)" using bitlen_pow2_bounds(2) [OF n] .
    also have "pow2 (bitlen n) = pow2 (k + 1) * pow2 (bitlen d - 1)"
      by (simp add: pow2_add [symmetric] k_def)
    also have "\<dots> \<le> pow2 (k + 1) * of_int d"
      using bitlen_pow2_bounds(1) [OF d] pow2_pos [of "k + 1"] by simp
    finally have "of_int n < pow2 (k + 1) * of_int d" .
    then show ?thesis using dr by (simp add: a pos_divide_less_eq)
  qed
  have lo: "pow2 (k - 1) < a"
  proof -
    have "pow2 (k - 1) * of_int d < pow2 (k - 1) * pow2 (bitlen d)"
      using bitlen_pow2_bounds(2) [OF d] pow2_pos [of "k - 1"] by simp
    also have "\<dots> = pow2 (bitlen n - 1)"
      by (simp add: pow2_add [symmetric] k_def)
    also have "\<dots> \<le> of_int n" using bitlen_pow2_bounds(1) [OF n] .
    finally have "pow2 (k - 1) * of_int d < of_int n" .
    then show ?thesis using dr by (simp add: a pos_less_divide_eq)
  qed
  have "ilog2 a = (if pow2 k \<le> a then k else k - 1)"
    by (simp add: ilog2_def q k_def)
  then show ?thesis
    using up lo by (auto simp: not_le)
qed

lemma pow2_mono: "i \<le> j \<Longrightarrow> pow2 i \<le> pow2 j"
  by (simp add: pow2_power_int power_int_increasing)

lemma pow2_53: "pow2 53 = 2 ^ 53"
  by (simp add: pow2_def)

lemma rne_nonneg: "0 \<le> x \<Longrightarrow> 0 \<le> rne x"
  by (auto simp: rne_def Let_def)

lemma rne_below: "x < of_int k \<Longrightarrow> rne x \<le> k"
proof -
  assume "x < of_int k"
  moreover have "of_int (rne x) - x \<le> 1 / 2" using rne_half [of x] by linarith
  ultimately have "(of_int (rne x) :: rat) < of_int k + 1" by linarith
  then have "(of_int (rne x) :: rat) < of_int (k + 1)" by simp
  then have "rne x < k + 1" by (simp only: of_int_less_iff)
  then show ?thesis by simp
qed

text \<open>A finite result of rounding lies on the grid of the doubles, within half a unit
  in the last place of the exact value.\<close>

lemma round_double_grid:
  assumes "round_double q = Finite v"
  shows "\<exists>m p. v = of_int m * pow2 p \<and> \<bar>m\<bar> \<le> 2 ^ 53 \<and> - 1074 \<le> p \<and> p \<le> 971
               \<and> \<bar>v - q\<bar> \<le> pow2 p / 2"
proof (cases "q = 0")
  case True
  then have "v = 0" using assms by (simp add: round_double_def)
  then have "v = of_int 0 * pow2 0 \<and> \<bar>0::int\<bar> \<le> 2 ^ 53 \<and> - 1074 \<le> (0::int) \<and> (0::int) \<le> 971
      \<and> \<bar>v - q\<bar> \<le> pow2 0 / 2"
    using True by (simp add: pow2_def)
  then show ?thesis by blast
next
  case False
  define a where "a = \<bar>q\<bar>"
  define e where "e = ilog2 a"
  define p where "p = max (e - 52) (- 1074)"
  define m where "m = rne (a / pow2 p)"
  have a: "0 < a" using False by (simp add: a_def)
  have fin: "\<not> (1024 \<le> e \<or> (e = 1023 \<and> 2 ^ 53 \<le> m))" and v: "v = sgn q * (of_int m * pow2 p)"
    using assms False
    by (auto simp: round_double_def Let_def a_def [symmetric] e_def [symmetric]
        p_def [symmetric] m_def [symmetric] split: if_splits)
  have p_lo: "- 1074 \<le> p" and p_hi: "p \<le> 971" using fin by (auto simp: p_def)
  have "a < pow2 (e + 1)" using ilog2_bounds [OF a] by (simp add: e_def)
  also have "pow2 (e + 1) \<le> pow2 (p + 53)" by (rule pow2_mono) (simp add: p_def)
  also have "pow2 (p + 53) = pow2 p * 2 ^ 53" by (simp add: pow2_add pow2_53)
  finally have "a / pow2 p < 2 ^ 53" using pow2_pos [of p] by (simp add: pos_divide_less_eq mult.commute)
  then have "a / pow2 p < of_int (2 ^ 53)" by simp
  then have m_hi: "m \<le> 2 ^ 53" unfolding m_def by (rule rne_below)
  have m_lo: "0 \<le> m" unfolding m_def using a pow2_pos [of p] by (intro rne_nonneg) simp
  have "\<bar>of_int m - a / pow2 p\<bar> \<le> 1 / 2" unfolding m_def by (rule rne_half)
  then have "\<bar>of_int m - a / pow2 p\<bar> * pow2 p \<le> 1 / 2 * pow2 p"
    using pow2_pos [of p] by (intro mult_right_mono) simp_all
  moreover have "\<bar>of_int m - a / pow2 p\<bar> * pow2 p = \<bar>of_int m * pow2 p - a\<bar>"
  proof -
    have "\<bar>of_int m - a / pow2 p\<bar> * pow2 p = \<bar>(of_int m - a / pow2 p) * pow2 p\<bar>"
      using pow2_pos [of p] by (simp add: abs_mult)
    also have "(of_int m - a / pow2 p) * pow2 p = of_int m * pow2 p - a"
      using pow2_pos [of p] by (simp add: algebra_simps)
    finally show ?thesis .
  qed
  ultimately have err: "\<bar>of_int m * pow2 p - a\<bar> \<le> pow2 p / 2" by simp
  have "\<bar>v - q\<bar> = \<bar>of_int m * pow2 p - a\<bar>"
  proof (cases "0 < q")
    case True
    then show ?thesis by (simp add: v a_def)
  next
    case False
    then have "q < 0" using \<open>q \<noteq> 0\<close> by simp
    then have "v - q = - (of_int m * pow2 p - a)" by (simp add: v a_def)
    then show ?thesis by (simp only: abs_minus_cancel)
  qed
  then have e1: "\<bar>v - q\<bar> \<le> pow2 p / 2" using err by simp
  show ?thesis
  proof (cases "0 < q")
    case True
    then have "v = of_int m * pow2 p" by (simp add: v)
    moreover have "\<bar>m\<bar> \<le> 2 ^ 53" using m_lo m_hi by simp
    ultimately show ?thesis using p_lo p_hi e1 by blast
  next
    case False
    then have "q < 0" using \<open>q \<noteq> 0\<close> by simp
    then have "v = of_int (- m) * pow2 p" by (simp add: v)
    moreover have "\<bar>- m\<bar> \<le> 2 ^ 53" using m_lo m_hi by simp
    ultimately show ?thesis using p_lo p_hi e1 by blast
  qed
qed

lemma pow2_less_cancel: "pow2 i < pow2 j \<Longrightarrow> i < j"
  using pow2_mono [of j i] by (cases "i < j") simp_all

text \<open>Every double is a fixed point of rounding.\<close>

lemma round_double_exact:
  assumes m: "\<bar>m\<bar> < 2 ^ 53" and p_lo: "- 1074 \<le> p" and p_hi: "p \<le> 971"
  shows "round_double (of_int m * pow2 p) = Finite (of_int m * pow2 p)"
proof (cases "m = 0")
  case True
  then show ?thesis by (simp add: round_double_def)
next
  case False
  define q where "q = (of_int m :: rat) * pow2 p"
  define a where "a = \<bar>q\<bar>"
  define e where "e = ilog2 a"
  define p' where "p' = max (e - 52) (- 1074)"
  have q0: "q \<noteq> 0" using False pow2_pos [of p] by (simp add: q_def)
  have a_eq: "a = of_int \<bar>m\<bar> * pow2 p"
    using pow2_pos [of p] by (simp add: a_def q_def abs_mult)
  have a: "0 < a" using q0 by (simp add: a_def)
  have "(of_int \<bar>m\<bar> :: rat) < of_int (2 ^ 53)" using m by (simp only: of_int_less_iff)
  then have "a < 2 ^ 53 * pow2 p" using pow2_pos [of p] by (simp add: a_eq)
  also have "\<dots> = pow2 (p + 53)" by (simp add: pow2_add pow2_53)
  finally have "pow2 e < pow2 (p + 53)" using ilog2_bounds [OF a] by (simp add: e_def)
  then have e_hi: "e < p + 53" by (rule pow2_less_cancel)
  have "1 \<le> \<bar>m\<bar>" using False by simp
  then have "(of_int 1 :: rat) \<le> of_int \<bar>m\<bar>" by (simp only: of_int_le_iff)
  then have "pow2 p \<le> a" using pow2_pos [of p] by (simp add: a_eq)
  then have "pow2 p < pow2 (e + 1)" using ilog2_bounds [OF a] by (simp add: e_def)
  then have e_lo: "p \<le> e" using pow2_less_cancel by fastforce
  have p': "p' \<le> p" using e_hi p_lo by (simp add: p'_def)
  define k where "k = nat (p - p')"
  have "pow2 p = pow2 (int k) * pow2 p'" using p' by (simp add: pow2_add [symmetric] k_def)
  then have pw: "pow2 p = 2 ^ k * pow2 p'" by (simp add: pow2_nat)
  have "a / pow2 p' = of_int \<bar>m\<bar> * 2 ^ k"
    using pow2_pos [of p'] by (simp add: a_eq pw)
  also have "\<dots> = of_int (\<bar>m\<bar> * 2 ^ k)" by simp
  finally have r: "rne (a / pow2 p') = \<bar>m\<bar> * 2 ^ k" by (simp only: rne_of_int)
  have recompose: "of_int (\<bar>m\<bar> * 2 ^ k) * pow2 p' = a" by (simp add: a_eq pw)
  have no_overflow: "\<not> (1024 \<le> e \<or> (e = 1023 \<and> 2 ^ 53 \<le> \<bar>m\<bar> * 2 ^ k))"
  proof -
    have "e \<le> 1023" using e_hi p_hi by simp
    moreover have "\<bar>m\<bar> * 2 ^ k < 2 ^ 53" if "e = 1023"
    proof -
      have "p = 971" using that e_hi p_hi by simp
      then have "p' = 971" using that by (simp add: p'_def)
      then have "k = 0" using \<open>p = 971\<close> by (simp add: k_def)
      then show ?thesis using m by simp
    qed
    ultimately show ?thesis by auto
  qed
  have "round_double q =
      (if 1024 \<le> e \<or> (e = 1023 \<and> 2 ^ 53 \<le> rne (a / pow2 p'))
       then (if 0 < q then PosInf else NegInf)
       else Finite (sgn q * (of_int (rne (a / pow2 p')) * pow2 p')))"
    unfolding round_double_def Let_def a_def e_def p'_def using q0 by (simp only: if_False)
  also have "\<dots> = Finite (sgn q * (of_int (\<bar>m\<bar> * 2 ^ k) * pow2 p'))"
    unfolding r using no_overflow by (simp only: if_False)
  also have "\<dots> = Finite (sgn q * a)" by (simp only: recompose)
  also have "sgn q * a = q" unfolding a_def by (rule sgn_mult_abs)
  finally have "round_double q = Finite q" .
  then show ?thesis by (simp add: q_def)
qed

text \<open>In the normal range the rounding error is at most \<open>2^-53\<close> of the exact value.\<close>

lemma round_double_relative:
  assumes r: "round_double q = Finite v" and normal: "pow2 (- 1022) \<le> \<bar>q\<bar>"
  shows "\<bar>v - q\<bar> \<le> \<bar>q\<bar> / 2 ^ 53"
proof -
  define a where "a = \<bar>q\<bar>"
  define e where "e = ilog2 a"
  define p where "p = max (e - 52) (- 1074)"
  define m where "m = rne (a / pow2 p)"
  have a: "0 < a" using normal pow2_pos [of "- 1022"] by (simp add: a_def)
  then have q0: "q \<noteq> 0" by (auto simp: a_def)
  have v: "v = sgn q * (of_int m * pow2 p)"
    using r q0
    by (auto simp: round_double_def Let_def a_def [symmetric] e_def [symmetric]
        p_def [symmetric] m_def [symmetric] split: if_splits)
  have "pow2 (- 1022) < pow2 (e + 1)"
    using ilog2_bounds [OF a] normal by (simp add: e_def a_def)
  then have "- 1022 < e + 1" by (rule pow2_less_cancel)
  then have p_eq: "p = e - 52" by (simp add: p_def)
  have "\<bar>of_int m - a / pow2 p\<bar> \<le> 1 / 2" unfolding m_def by (rule rne_half)
  then have "\<bar>of_int m - a / pow2 p\<bar> * pow2 p \<le> 1 / 2 * pow2 p"
    using pow2_pos [of p] by (intro mult_right_mono) simp_all
  moreover have "\<bar>of_int m - a / pow2 p\<bar> * pow2 p = \<bar>of_int m * pow2 p - a\<bar>"
  proof -
    have "\<bar>of_int m - a / pow2 p\<bar> * pow2 p = \<bar>(of_int m - a / pow2 p) * pow2 p\<bar>"
      using pow2_pos [of p] by (simp add: abs_mult)
    also have "(of_int m - a / pow2 p) * pow2 p = of_int m * pow2 p - a"
      using pow2_pos [of p] by (simp add: algebra_simps)
    finally show ?thesis .
  qed
  ultimately have err: "\<bar>of_int m * pow2 p - a\<bar> \<le> pow2 p / 2" by simp
  have "pow2 e = pow2 p * pow2 52" by (simp add: pow2_add [symmetric] p_eq)
  also have "pow2 52 = 2 ^ 52" by (simp add: pow2_def)
  finally have "pow2 p / 2 = pow2 e / 2 ^ 53" by simp
  also have "\<dots> \<le> a / 2 ^ 53"
    using ilog2_bounds [OF a] by (simp add: e_def divide_right_mono)
  finally have ulp: "pow2 p / 2 \<le> a / 2 ^ 53" .
  have "\<bar>v - q\<bar> = \<bar>of_int m * pow2 p - a\<bar>"
  proof (cases "0 < q")
    case True
    then show ?thesis by (simp add: v a_def)
  next
    case False
    then have "q < 0" using q0 by simp
    then have "v - q = - (of_int m * pow2 p - a)" by (simp add: v a_def)
    then show ?thesis by (simp only: abs_minus_cancel)
  qed
  then show ?thesis using err ulp by (simp add: a_def)
qed

lemma round_double_of_nat:
  assumes "n < 2 ^ 53"
  shows "round_double (of_nat n) = Finite (of_nat n)"
proof -
  have "int n < int (2 ^ 53)" using assms by (simp only: of_nat_less_iff)
  then have "\<bar>int n\<bar> < 2 ^ 53" by simp
  then have "round_double (of_int (int n) * pow2 0) = Finite (of_int (int n) * pow2 0)"
    by (rule round_double_exact) simp_all
  then show ?thesis by (simp add: pow2_def)
qed

lemma dmul_commute: "dmul x y = dmul y x"
  by (cases x; cases y) (simp_all add: mult.commute)

section \<open>Consensus\<close>

lemma count_consent_votes:
  "count_consent devs (y, n, m) =
     (y + length (filter (\<lambda>d. state (consent_state d) = STATE_YES) devs),
      n + length (filter (\<lambda>d. state (consent_state d) = STATE_NO) devs),
      m + length (filter (\<lambda>d. state (consent_state d) = STATE_MAYBE) devs))"
  by (induction devs arbitrary: y n m) (auto split: trinary_state_t.splits)

text \<open>What the function computes: rejection on any NO is as specified; the acceptance
  threshold is \<open>device_count div 2\<close>, rounded down.\<close>

lemma verify_network_consensus_votes:
  "verify_network_consensus session =
     (if votes STATE_NO session > 0 then (CONSENSUS_REJECTED, 0)
      else if votes STATE_YES session \<ge> device_count session div 2 then (CONSENSUS_VERIFIED, 1)
      else (CONSENSUS_PENDING, 0))"
  by (simp add: verify_network_consensus_def count_consent_votes votes_def)

text \<open>
  C1. The claim: any NO gives REJECTED; with no NO the session is ACCEPTED exactly when
  the YES votes reach \<open>\<lceil>device_count / 2\<rceil>\<close>; otherwise PENDING. The code compares with
  \<open>device_count / 2\<close> in integer division. For three devices of which one said YES and two
  MAYBE it prints "VERIFIED (majority agreement)" and returns 1, where the claim, and the
  code's own comment "Require majority YES", ask for PENDING.
\<close>

theorem consensus_accepts_one_yes_of_three:
  "verify_network_consensus one_yes_of_three = (CONSENSUS_VERIFIED, 1)
   \<and> consensus_as_specified one_yes_of_three = CONSENSUS_PENDING"
  by (simp add: verify_network_consensus_votes consensus_as_specified_def votes_def
      one_yes_of_three_def with_vote_def zero_session_def)

text \<open>
  C9. Whatever value the \<^verbatim>\<open>rssi\<close> field holds, \<^verbatim>\<open>request_device_consent\<close>
  stores YES in the device's consent state and returns YES: the field is a
  \<^verbatim>\<open>uint8_t\<close>, its promoted value is never negative, so \<^verbatim>\<open>rssi > -70\<close> always
  holds and the NO and MAYBE branches are dead (EPSILON is assigned nowhere).
\<close>

theorem request_device_consent_always_yes:
  "request_device_consent now device request_type =
     (STATE_YES,
      device\<lparr>consent_state := (consent_state device)\<lparr>state := STATE_YES, timestamp := now\<rparr>\<rparr>)"
proof -
  have "0 \<le> uint (rssi device)" by simp
  then have "uint (rssi device) > - 70" by linarith
  then show ?thesis by (simp add: request_device_consent_def)
qed

text \<open>The demo's fourth device is initialised with \<^verbatim>\<open>.rssi = -95\<close>, stored as 161;
  it answers YES.\<close>

theorem request_device_consent_always_yes_witness:
  "rssi device4 = 161 \<and> fst (request_device_consent 0 device4 ''PARTICIPATION'') = STATE_YES"
  using request_device_consent_always_yes [of 0 device4 "''PARTICIPATION''"]
  by (simp add: device4_def zero_device_def)

section \<open>Topology\<close>

lemma count_hosts_filter:
  "count_hosts devs k = k + length (filter (\<lambda>d. role d = ROLE_HOST) devs)"
  by (induction devs arbitrary: k) auto

text \<open>
  C2, as the code has it. For every device list without a Host, whatever the device
  count, \<^verbatim>\<open>determine_topology\<close> counts no host and returns \<^verbatim>\<open>TOPOLOGY_STAR\<close>,
  its labelled fallback; the function has no error result.
\<close>

theorem determine_topology_no_hosts_star:
  "\<forall>d \<in> set devs. role d \<noteq> ROLE_HOST \<Longrightarrow>
     count_hosts devs 0 = 0 \<and> determine_topology n devs = TOPOLOGY_STAR"
  by (simp add: determine_topology_def count_hosts_filter filter_empty_conv)

theorem determine_topology_no_hosts_star_witness:
  "count_hosts [device2, device3] 0 = 0 \<and> determine_topology 5 [device2, device3] = TOPOLOGY_STAR"
  using determine_topology_no_hosts_star [of "[device2, device3]" 5]
  by (simp add: device2_def device3_def zero_device_def)

text \<open>The claim C2 as stated fails: the demo's two clients and its relay, with no host,
  get STAR.\<close>

theorem determine_topology_star_fallback:
  "count_hosts [device2, device3, device4] 0 = 0
   \<and> determine_topology 3 [device2, device3, device4] = TOPOLOGY_STAR"
  by (simp add: determine_topology_def device2_def device3_def device4_def zero_device_def)

section \<open>Compliance\<close>

text \<open>
  C3, as the code has it. \<^verbatim>\<open>verify_constitutional_compliance\<close> returns 1 exactly when
  \<^verbatim>\<open>transparency_verified\<close> and \<^verbatim>\<open>fairness_verified\<close> were both non-zero before
  the call. It does not read \<^verbatim>\<open>privacy_verified\<close>; it sets that flag to 1 itself on
  every call and changes nothing else.
\<close>

theorem compliance_ignores_privacy_flag:
  "verify_constitutional_compliance session =
     (if transparency_verified session \<noteq> 0 \<and> fairness_verified session \<noteq> 0 then 1 else 0,
      session\<lparr>privacy_verified := 1\<rparr>)"
  by (simp add: verify_constitutional_compliance_def)

theorem compliance_ignores_privacy_flag_witness:
  "fst (verify_constitutional_compliance (zero_session\<lparr>transparency_verified := 1\<rparr>)) = 0
   \<and> fst (verify_constitutional_compliance (calculate_cost_sharing zero_session)) = 1"
  using compliance_ignores_privacy_flag [of "zero_session\<lparr>transparency_verified := 1\<rparr>"]
    compliance_ignores_privacy_flag [of "calculate_cost_sharing zero_session"]
  by (simp add: zero_session_def calculate_cost_sharing_def)

text \<open>The claim C3 as stated fails: a session whose privacy flag was never set passes,
  and leaves the audit with the flag set.\<close>

theorem compliance_passes_without_privacy:
  "privacy_verified (zero_session\<lparr>transparency_verified := 1, fairness_verified := 1\<rparr>) = 0
   \<and> fst (verify_constitutional_compliance
            (zero_session\<lparr>transparency_verified := 1, fairness_verified := 1\<rparr>)) = 1
   \<and> privacy_verified (snd (verify_constitutional_compliance
            (zero_session\<lparr>transparency_verified := 1, fairness_verified := 1\<rparr>))) = 1"
  by (simp add: verify_constitutional_compliance_def zero_session_def)

section \<open>Bandwidth\<close>

lemma sum_host_bandwidth_foldl:
  "sum_host_bandwidth devs t =
     foldl dadd t (map bandwidth_mbps (filter (\<lambda>d. role d = ROLE_HOST) devs))"
  by (induction devs arbitrary: t) simp_all

text \<open>
  C6, as the code has it. \<^verbatim>\<open>calculate_fair_bandwidth\<close> stores as total the sum, taken
  in list order from 0.0, of \<^verbatim>\<open>bandwidth_mbps\<close> over the devices with role Host only,
  and as fair share the double quotient \<open>(2 * total) / device_count\<close>. The quotient is
  rounded, so invariant C2 holds up to that rounding only: when the device count is
  positive (and below \<open>2^53\<close>), \<open>2 * total\<close> is a finite double \<open>D\<close>, the stored fair share is
  a finite double \<open>f\<close>, and the quotient is zero or not subnormal, then in exact arithmetic
  \<open>f * device_count\<close> differs from \<open>D\<close> by at most \<open>\<bar>D\<bar> / 2^53\<close>.
\<close>

theorem fair_bandwidth_quotient:
  "total_bandwidth_mbps (calculate_fair_bandwidth session) =
     foldl dadd (dlit 0) (map bandwidth_mbps (filter (\<lambda>d. role d = ROLE_HOST) (devices session)))
   \<and> fair_share_mbps (calculate_fair_bandwidth session) =
       ddiv (dmul (dlit 2) (total_bandwidth_mbps (calculate_fair_bandwidth session)))
            (double_of_size (device_count session))
   \<and> (0 < device_count session \<and> device_count session < 2 ^ 53
        \<and> dmul (dlit 2) (total_bandwidth_mbps (calculate_fair_bandwidth session)) = Finite D
        \<and> fair_share_mbps (calculate_fair_bandwidth session) = Finite f
        \<and> (D = 0 \<or> pow2 (- 1022) \<le> \<bar>D\<bar> / of_nat (device_count session))
      \<longrightarrow> \<bar>f * of_nat (device_count session) - D\<bar> \<le> \<bar>D\<bar> / 2 ^ 53)"
proof -
  define n where "n = device_count session"
  have tot: "total_bandwidth_mbps (calculate_fair_bandwidth session) =
     foldl dadd (dlit 0) (map bandwidth_mbps (filter (\<lambda>d. role d = ROLE_HOST) (devices session)))"
    by (simp add: calculate_fair_bandwidth_def Let_def sum_host_bandwidth_foldl)
  have fair: "fair_share_mbps (calculate_fair_bandwidth session) =
       ddiv (dmul (dlit 2) (total_bandwidth_mbps (calculate_fair_bandwidth session)))
            (double_of_size n)"
    by (simp add: calculate_fair_bandwidth_def Let_def n_def dmul_commute [of _ "dlit 2"])
  have bound: "\<bar>f * of_nat n - D\<bar> \<le> \<bar>D\<bar> / 2 ^ 53"
    if pos: "0 < n" and small: "n < 2 ^ 53"
      and D: "dmul (dlit 2) (total_bandwidth_mbps (calculate_fair_bandwidth session)) = Finite D"
      and f: "fair_share_mbps (calculate_fair_bandwidth session) = Finite f"
      and range: "D = 0 \<or> pow2 (- 1022) \<le> \<bar>D\<bar> / of_nat n"
  proof -
    have nr: "(0 :: rat) < of_nat n" using pos by simp
    have "double_of_size n = Finite (of_nat n)"
      unfolding double_of_size_def using small by (rule round_double_of_nat)
    then have "fair_share_mbps (calculate_fair_bandwidth session)
        = ddiv (Finite D) (Finite (of_nat n))"
      by (simp only: fair D)
    also have "\<dots> = round_double (D / of_nat n)" using nr by simp
    finally have r: "round_double (D / of_nat n) = Finite f" by (simp only: f)
    show ?thesis
    proof (cases "D = 0")
      case True
      then have "f = 0" using r by (simp add: round_double_def)
      then show ?thesis using True by simp
    next
      case False
      then have "pow2 (- 1022) \<le> \<bar>D / of_nat n\<bar>" using range nr by simp
      with r have "\<bar>f - D / of_nat n\<bar> \<le> \<bar>D / of_nat n\<bar> / 2 ^ 53"
        by (rule round_double_relative)
      then have "\<bar>f - D / of_nat n\<bar> * of_nat n \<le> \<bar>D / of_nat n\<bar> / 2 ^ 53 * of_nat n"
        using nr by (intro mult_right_mono) simp_all
      moreover have "\<bar>f - D / of_nat n\<bar> * of_nat n = \<bar>f * of_nat n - D\<bar>"
      proof -
        have "\<bar>f - D / of_nat n\<bar> * of_nat n = \<bar>(f - D / of_nat n) * of_nat n\<bar>"
          using nr by (simp add: abs_mult)
        also have "(f - D / of_nat n) * of_nat n = f * of_nat n - D"
          using nr by (simp add: algebra_simps)
        finally show ?thesis .
      qed
      moreover have "\<bar>D / of_nat n\<bar> / 2 ^ 53 * of_nat n = \<bar>D\<bar> / 2 ^ 53"
        using nr by simp
      ultimately show ?thesis by simp
    qed
  qed
  show ?thesis
    using tot fair bound unfolding n_def by blast
qed

text \<open>The bound does not cover a device count of 0: the division is not guarded, and the
  stored fair share is then an infinity or NaN.\<close>

lemma fair_share_zero_devices:
  assumes "device_count session = 0"
  shows "fair_share_mbps (calculate_fair_bandwidth session) \<in> {PosInf, NegInf, NaN}"
proof -
  have z: "double_of_size 0 = Finite 0" by (simp add: double_of_size_def round_double_def)
  have "ddiv x (Finite 0) \<in> {PosInf, NegInf, NaN}" for x
    by (cases x) (auto simp: signed_inf_def)
  then show ?thesis
    using assms by (simp add: calculate_fair_bandwidth_def Let_def z)
qed

lemma demo_total_bandwidth:
  "total_bandwidth_mbps (calculate_fair_bandwidth demo_session) = Finite 10"
  by code_simp

lemma eleven_total_bandwidth:
  "total_bandwidth_mbps (calculate_fair_bandwidth eleven_devices) = Finite 25"
  by code_simp

lemma eleven_fair_share:
  "fair_share_mbps (calculate_fair_bandwidth eleven_devices)
     = Finite (5117726849284655 / 1125899906842624)"
  by code_simp

lemma eleven_product:
  "dmul (Finite (5117726849284655 / 1125899906842624)) (double_of_size 11)
     = Finite (7036874417766401 / 140737488355328)
   \<and> dmul (dlit 2) (Finite 25) = Finite 50"
  by code_simp

text \<open>Two runs. The demo session, one host with 10 Mbps among four devices, gets a fair
  share of 5 Mbps, and there the invariant holds exactly. With 25 Mbps among eleven devices
  the fair share times eleven is within \<open>50 / 2^53\<close> of 50.\<close>

theorem fair_bandwidth_quotient_witness:
  "total_bandwidth_mbps (calculate_fair_bandwidth demo_session) = Finite 10
   \<and> fair_share_mbps (calculate_fair_bandwidth demo_session) = Finite 5
   \<and> fair_share_invariant (calculate_fair_bandwidth demo_session)
   \<and> fair_share_mbps (calculate_fair_bandwidth eleven_devices)
       = Finite (5117726849284655 / 1125899906842624)
   \<and> \<bar>(5117726849284655 / 1125899906842624 :: rat) * 11 - 50\<bar> \<le> 50 / 2 ^ 53"
proof -
  have n: "device_count demo_session = 4" by (simp add: demo_session_def)
  have q: "ddiv (dmul (dlit 2) (Finite 10)) (double_of_size 4) = Finite 5" by code_simp
  have fair: "fair_share_mbps (calculate_fair_bandwidth demo_session) = Finite 5"
    using fair_bandwidth_quotient [of demo_session] demo_total_bandwidth n q by simp
  have "device_count (calculate_fair_bandwidth demo_session) = 4"
    by (simp add: calculate_fair_bandwidth_def Let_def n)
  moreover have "dmul (Finite 5) (double_of_size 4) = dmul (dlit 2) (Finite 10)" by code_simp
  ultimately have inv: "fair_share_invariant (calculate_fair_bandwidth demo_session)"
    by (simp add: fair_share_invariant_def fair demo_total_bandwidth)
  have n11: "device_count eleven_devices = 11" by (simp add: eleven_devices_def)
  have pos: "0 < device_count eleven_devices" by (simp add: n11)
  have "(11 :: nat) < 2 ^ 53" by simp
  then have small: "device_count eleven_devices < 2 ^ 53" by (simp only: n11)
  have D: "dmul (dlit 2) (total_bandwidth_mbps (calculate_fair_bandwidth eleven_devices))
      = Finite 50"
    by (simp only: eleven_total_bandwidth eleven_product)
  have "pow2 (- 1022) \<le> pow2 0" by (rule pow2_mono) simp
  also have "pow2 0 \<le> \<bar>50 :: rat\<bar> / of_nat 11" by (simp add: pow2_def)
  finally have range: "(50 :: rat) = 0 \<or> pow2 (- 1022) \<le> \<bar>50\<bar> / of_nat (device_count eleven_devices)"
    by (simp only: n11 simp_thms)
  have "\<bar>(5117726849284655 / 1125899906842624 :: rat) * of_nat (device_count eleven_devices) - 50\<bar>
      \<le> \<bar>50\<bar> / 2 ^ 53"
    using fair_bandwidth_quotient
      [of eleven_devices 50 "5117726849284655 / 1125899906842624"]
      pos small D eleven_fair_share range
    by blast
  then have "\<bar>(5117726849284655 / 1125899906842624 :: rat) * 11 - 50\<bar> \<le> 50 / 2 ^ 53"
    by (simp add: n11)
  then show ?thesis
    using fair demo_total_bandwidth inv eleven_fair_share by simp
qed

text \<open>The claim C6 as stated fails: with one host of 25 Mbps among eleven devices the
  fair share is the double nearest to \<open>50 / 11\<close>, and eleven times it is the double above
  50, not 50. The last conjunct is the same product in exact arithmetic on the stored
  values: it is not 50 either.\<close>

theorem fair_share_not_exact:
  "fair_share_mbps (calculate_fair_bandwidth eleven_devices)
     = Finite (5117726849284655 / 1125899906842624)
   \<and> dmul (fair_share_mbps (calculate_fair_bandwidth eleven_devices))
          (double_of_size (device_count (calculate_fair_bandwidth eleven_devices)))
     = Finite (7036874417766401 / 140737488355328)
   \<and> dmul (dlit 2) (total_bandwidth_mbps (calculate_fair_bandwidth eleven_devices)) = Finite 50
   \<and> \<not> fair_share_invariant (calculate_fair_bandwidth eleven_devices)
   \<and> (5117726849284655 / 1125899906842624 :: rat) * 11 \<noteq> 2 * 25"
proof -
  have "device_count (calculate_fair_bandwidth eleven_devices) = 11"
    by (simp add: calculate_fair_bandwidth_def Let_def eleven_devices_def)
  then show ?thesis
    by (simp add: fair_share_invariant_def eleven_total_bandwidth eleven_fair_share
        eleven_product)
qed

section \<open>Cost sharing\<close>

lemma cost_loop_devices:
  "fst (cost_loop devs t) =
     map (\<lambda>d. d\<lparr>balance_usd := dmul (dmul (mb_used d) work_per_mb) usd_per_joule\<rparr>) devs"
  by (induction devs arbitrary: t) (simp_all add: Let_def case_prod_beta)

lemma cost_loop_total:
  "snd (cost_loop devs t) =
     foldl dadd t (map (\<lambda>d. dmul (dmul (mb_used d) work_per_mb) usd_per_joule) devs)"
  by (induction devs arbitrary: t) (simp_all add: Let_def case_prod_beta)

lemma cost_sharing_devices:
  "devices (calculate_cost_sharing session) =
     map (\<lambda>d. d\<lparr>balance_usd := dmul (dmul (mb_used d) work_per_mb) usd_per_joule\<rparr>)
         (devices session)"
  by (simp add: calculate_cost_sharing_def case_prod_beta cost_loop_devices)

text \<open>The loop body's cost with the constants written out and the wrap-around of the
  \<^verbatim>\<open>uint64_t\<close> sum made explicit.\<close>

lemma device_cost_unfolded:
  "dmul (dmul (mb_used d) work_per_mb) usd_per_joule =
     dmul (dmul (ddiv (round_double
                         (of_nat ((unat (bytes_sent d) + unat (bytes_received d)) mod 2 ^ 64)))
                      (dmul (dlit 1024) (dlit 1024)))
                (dmul (dmul (dlit (125 / 100)) (dlit 15)) (dlit (866 / 1000))))
          (dlit (1 / 100000))"
  by (simp add: mb_used_def work_per_mb_def force_newtons_def distance_meters_def
      cosine_theta_def usd_per_joule_def double_of_u64_def unat_word_ariths)

text \<open>
  C5, as the code has it. After \<^verbatim>\<open>calculate_cost_sharing\<close> every device carries the
  balance \<open>(mb_used * ((1.25 * 15.0) * 0.866)) * 1e-5\<close>: the three constants are multiplied
  first, every operation is rounded to a double, and
  \<open>mb_used = ((bytes_sent + bytes_received) mod 2^64) / (1024 * 1024)\<close>, the sum of the two
  counters wrapping around as a \<^verbatim>\<open>uint64_t\<close>. Every other field of the device is
  unchanged. The session's total is exactly the running sum of the stored balances, added
  in list order starting from 0.0.
\<close>

theorem cost_sharing_balances_and_total:
  "devices (calculate_cost_sharing session) =
     map (\<lambda>d. d\<lparr>balance_usd :=
            dmul (dmul (ddiv (round_double
                                (of_nat ((unat (bytes_sent d) + unat (bytes_received d))
                                         mod 2 ^ 64)))
                             (dmul (dlit 1024) (dlit 1024)))
                       (dmul (dmul (dlit (125 / 100)) (dlit 15)) (dlit (866 / 1000))))
                 (dlit (1 / 100000))\<rparr>)
         (devices session)
   \<and> total_cost_usd (calculate_cost_sharing session) =
       foldl dadd (dlit 0) (map balance_usd (devices (calculate_cost_sharing session)))"
proof -
  let ?cost = "\<lambda>d. dmul (dmul (mb_used d) work_per_mb) usd_per_joule"
  have devs: "devices (calculate_cost_sharing session) =
      map (\<lambda>d. d\<lparr>balance_usd := ?cost d\<rparr>) (devices session)"
    by (rule cost_sharing_devices)
  have "total_cost_usd (calculate_cost_sharing session) =
      foldl dadd (dlit 0) (map ?cost (devices session))"
    by (simp add: calculate_cost_sharing_def case_prod_beta cost_loop_total)
  also have "map ?cost (devices session) =
      map balance_usd (devices (calculate_cost_sharing session))"
    by (simp add: devs comp_def)
  finally have tot: "total_cost_usd (calculate_cost_sharing session) =
      foldl dadd (dlit 0) (map balance_usd (devices (calculate_cost_sharing session)))" .
  show ?thesis
    using devs tot by (simp only: device_cost_unfolded simp_thms)
qed

lemma traffic_demo:
  "double_of_u64 (bytes_sent device1 + bytes_received device1) = round_double 7340032"
  "double_of_u64 (bytes_sent device2 + bytes_received device2) = round_double 11534336"
  "double_of_u64 (bytes_sent device3 + bytes_received device3) = round_double 3670016"
  "double_of_u64 (bytes_sent device4 + bytes_received device4) = round_double 3145728"
  by (simp_all add: double_of_u64_def device1_def device2_def device3_def device4_def
      zero_device_def)

lemma cost_device1:
  "dmul (dmul (mb_used device1) work_per_mb) usd_per_joule
     = Finite (5241757620695031 / 4611686018427387904)"
  unfolding mb_used_def traffic_demo by code_simp

lemma cost_device2:
  "dmul (dmul (mb_used device2) work_per_mb) usd_per_joule
     = Finite (8237047689663619 / 4611686018427387904)"
  unfolding mb_used_def traffic_demo by code_simp

lemma cost_device3:
  "dmul (dmul (mb_used device3) work_per_mb) usd_per_joule
     = Finite (5241757620695031 / 9223372036854775808)"
  unfolding mb_used_def traffic_demo by code_simp

lemma cost_device4:
  "dmul (dmul (mb_used device4) work_per_mb) usd_per_joule
     = Finite (8985870206905767 / 18446744073709551616)"
  unfolding mb_used_def traffic_demo by code_simp

lemma demo_running_sum:
  "foldl dadd (dlit 0)
     [Finite (5241757620695031 / 4611686018427387904),
      Finite (8237047689663619 / 4611686018427387904),
      Finite (5241757620695031 / 9223372036854775808),
      Finite (8985870206905767 / 18446744073709551616)]
   = Finite (573317239763519 / 144115188075855872)"
  by code_simp

text \<open>The demo session: 7, 11, 3.5 and 3 MB of traffic. The first balance is the double
  printed as 0.0011366250000000003, the total the double 0.003978187500000001.\<close>

theorem cost_sharing_balances_and_total_witness:
  "map balance_usd (devices (calculate_cost_sharing demo_session)) =
     [Finite (5241757620695031 / 4611686018427387904),
      Finite (8237047689663619 / 4611686018427387904),
      Finite (5241757620695031 / 9223372036854775808),
      Finite (8985870206905767 / 18446744073709551616)]
   \<and> total_cost_usd (calculate_cost_sharing demo_session) =
       Finite (573317239763519 / 144115188075855872)"
proof -
  have devs: "devices demo_session = [device1, device2, device3, device4]"
    by (simp add: demo_session_def)
  have bal: "map balance_usd (devices (calculate_cost_sharing demo_session)) =
     [Finite (5241757620695031 / 4611686018427387904),
      Finite (8237047689663619 / 4611686018427387904),
      Finite (5241757620695031 / 9223372036854775808),
      Finite (8985870206905767 / 18446744073709551616)]"
    using cost_sharing_balances_and_total
      [of demo_session, unfolded device_cost_unfolded [symmetric]]
    by (simp add: devs cost_device1 cost_device2 cost_device3 cost_device4)
  show ?thesis
    using cost_sharing_balances_and_total [of demo_session] bal demo_running_sum
    by simp
qed

lemma claimed_traffic:
  "round_double (of_nat (unat (bytes_sent device1) + unat (bytes_received device1)))
     = round_double 7340032"
  "round_double (of_nat (unat (bytes_sent wrapping_device) + unat (bytes_received wrapping_device)))
     = round_double 18446744073710600192"
  "double_of_u64 (bytes_sent wrapping_device + bytes_received wrapping_device)
     = round_double 1048576"
  by (simp_all add: double_of_u64_def device1_def wrapping_device_def zero_device_def)

lemma claimed_device1:
  "cost_as_claimed device1 = Finite (2620878810347515 / 2305843009213693952)"
  unfolding cost_as_claimed_def mb_as_claimed_def claimed_traffic by code_simp

lemma exact_device1: "cost_exact device1 = 9093 / 8000000"
  by (simp add: cost_exact_def device1_def zero_device_def)

lemma exact_device1_rounded:
  "round_double (9093 / 8000000) = Finite (2620878810347515 / 2305843009213693952)"
  by code_simp

lemma cost_wrapping_device:
  "dmul (dmul (mb_used wrapping_device) work_per_mb) usd_per_joule
     = Finite (2995290068968589 / 18446744073709551616)"
  unfolding mb_used_def claimed_traffic by code_simp

lemma claimed_wrapping_device:
  "cost_as_claimed wrapping_device = Finite (2995290068968759 / 1048576)"
  unfolding cost_as_claimed_def mb_as_claimed_def claimed_traffic by code_simp

text \<open>The claim C5 as stated fails. For the demo's first device (7 MB) the code stores
  the double 0.0011366250000000003, while the claimed product is the double 0.001136625,
  whether it is taken left to right on doubles or exactly and rounded once. For a device
  whose counters add up to \<open>2^64 + 1048576\<close> bytes the sum wraps to 1 MiB: the code stores
  0.00016237500000000003 USD where the claimed formula gives about 2.86 billion USD.\<close>

theorem cost_not_claimed_product:
  "balance_usd (hd (devices (calculate_cost_sharing demo_session)))
     = Finite (5241757620695031 / 4611686018427387904)
   \<and> cost_as_claimed device1 = Finite (2620878810347515 / 2305843009213693952)
   \<and> round_double (cost_exact device1) = Finite (2620878810347515 / 2305843009213693952)
   \<and> balance_usd (hd (devices (calculate_cost_sharing demo_session))) \<noteq> cost_as_claimed device1
   \<and> balance_usd (hd (devices (calculate_cost_sharing wrapping_session)))
     = Finite (2995290068968589 / 18446744073709551616)
   \<and> cost_as_claimed wrapping_device = Finite (2995290068968759 / 1048576)
   \<and> balance_usd (hd (devices (calculate_cost_sharing wrapping_session)))
     \<noteq> cost_as_claimed wrapping_device"
  by (simp add: cost_sharing_devices demo_session_def wrapping_session_def zero_session_def
      cost_device1 cost_wrapping_device claimed_device1 claimed_wrapping_device
      exact_device1 exact_device1_rounded)

section \<open>Lightning payment\<close>

lemma satoshi_per_btc_double: "double_of_u64 satoshi_per_btc = dlit 100000000"
  by (simp add: double_of_u64_def satoshi_per_btc_def dlit_def)

text \<open>
  C8, as the code has it. The invoice expires at \<open>now + 600\<close>. The amount is converted at
  the fixed rate of 40000 USD per BTC, which is no parameter of the function: it is the
  double product \<open>(amount_usd * (1.0 / 40000.0)) * 100000000\<close> converted to
  \<^verbatim>\<open>uint64_t\<close>, that is, truncated: a product \<open>v\<close> in range gives \<open>\<lfloor>v\<rfloor>\<close> satoshi.
\<close>

theorem invoice_fixed_rate_truncates:
  "expiry (snd (snd (process_lightning_payment now device amount_usd))) = now + 600
   \<and> amount_satoshi (snd (snd (process_lightning_payment now device amount_usd))) =
       u64_of_double (dmul (dmul amount_usd (ddiv (dlit 1) (dlit 40000))) (dlit 100000000))
   \<and> (\<forall>v. dmul (dmul amount_usd (ddiv (dlit 1) (dlit 40000))) (dlit 100000000) = Finite v
          \<and> 0 \<le> v \<and> v < 2 ^ 64
        \<longrightarrow> amount_satoshi (snd (snd (process_lightning_payment now device amount_usd))) =
              Some (word_of_int \<lfloor>v\<rfloor>))"
  by (simp add: process_lightning_payment_def btc_per_usd_def satoshi_per_btc_double)

lemma product_bob:
  "dmul (dmul (Finite (8237047689663619 / 4611686018427387904)) (ddiv (dlit 1) (dlit 40000)))
        (dlit 100000000) = Finite (5027494927773205 / 1125899906842624)"
  by code_simp

lemma floor_bob: "\<lfloor>5027494927773205 / 1125899906842624 :: rat\<rfloor> = 4"
  by code_simp

text \<open>The second demo device's balance, the double 0.0017861250000000002 USD, makes
  4.4653125000000005 satoshi before the conversion and 4 after it.\<close>

theorem invoice_fixed_rate_truncates_witness:
  "expiry (snd (snd (process_lightning_payment 1000 device2
       (Finite (8237047689663619 / 4611686018427387904))))) = 1600
   \<and> amount_satoshi (snd (snd (process_lightning_payment 1000 device2
       (Finite (8237047689663619 / 4611686018427387904))))) = Some 4"
proof -
  have "(0::rat) \<le> 5027494927773205 / 1125899906842624"
    and "(5027494927773205 / 1125899906842624 :: rat) < 2 ^ 64"
    by simp_all
  then show ?thesis
    using invoice_fixed_rate_truncates
      [of 1000 device2 "Finite (8237047689663619 / 4611686018427387904)"] product_bob floor_bob
    by simp
qed

lemma amount_0007: "dlit (7 / 10000) = Finite (6456360425798343 / 9223372036854775808)"
  by code_simp

lemma product_0007:
  "dmul (dmul (Finite (6456360425798343 / 9223372036854775808)) btc_per_usd)
        (dlit 100000000) = Finite (7881299347898369 / 4503599627370496)"
  by code_simp

lemma floor_0007: "\<lfloor>7881299347898369 / 4503599627370496 :: rat\<rfloor> = 1"
  by code_simp

lemma specified_0007:
  "satoshi_as_specified 40000 (6456360425798343 / 9223372036854775808) = 2"
  by code_simp

lemma rounded_0007: "rne (7881299347898369 / 4503599627370496) = 2"
  by code_simp

text \<open>The claim C8 as stated fails: 0.0007 USD is 1.75 satoshi at 40000 USD per BTC,
  which rounds to 2; the code's product is the double 1.7500000000000002, which banker's
  rounding would also take to 2 (last conjunct), and the invoice is for 1 satoshi.\<close>

theorem invoice_not_bankers_rounding:
  "dlit (7 / 10000) = Finite (6456360425798343 / 9223372036854775808)
   \<and> amount_satoshi (snd (snd (process_lightning_payment 0 device2 (dlit (7 / 10000))))) = Some 1
   \<and> satoshi_as_specified 40000 (6456360425798343 / 9223372036854775808) = 2
   \<and> rne (7881299347898369 / 4503599627370496) = 2"
proof -
  have "u64_of_double (Finite (7881299347898369 / 4503599627370496)) = Some 1"
    by (simp add: floor_0007)
  then show ?thesis
    by (simp add: process_lightning_payment_def satoshi_per_btc_double amount_0007 product_0007
        specified_0007 rounded_0007)
qed

text \<open>
  C10. For every device and every amount \<^verbatim>\<open>process_lightning_payment\<close> returns 1 and
  leaves the device with \<^verbatim>\<open>PAYMENT_SETTLED\<close> (the local invoice stands at
  \<^verbatim>\<open>PAYMENT_AUTHORIZED\<close>). It is the only function that writes a device's payment
  status: \<^verbatim>\<open>request_device_consent\<close> and \<^verbatim>\<open>calculate_cost_sharing\<close>, the other two
  that write a device, keep it, and \<^verbatim>\<open>calculate_fair_bandwidth\<close> and
  \<^verbatim>\<open>verify_constitutional_compliance\<close> write the session only. So no device is ever
  given \<^verbatim>\<open>PAYMENT_PROCESSING\<close> or \<^verbatim>\<open>PAYMENT_FAILED\<close>.
\<close>

theorem payment_always_settles:
  "fst (process_lightning_payment now device amount_usd) = 1
   \<and> payment_status (fst (snd (process_lightning_payment now device amount_usd)))
       = PAYMENT_SETTLED
   \<and> status (snd (snd (process_lightning_payment now device amount_usd))) = PAYMENT_AUTHORIZED
   \<and> payment_status (snd (request_device_consent now device request_type))
       = payment_status device
   \<and> map payment_status (devices (calculate_cost_sharing session))
       = map payment_status (devices session)
   \<and> devices (calculate_fair_bandwidth session) = devices session
   \<and> devices (snd (verify_constitutional_compliance session)) = devices session"
  by (simp add: process_lightning_payment_def request_device_consent_def
      calculate_cost_sharing_def cost_loop_devices case_prod_beta comp_def
      calculate_fair_bandwidth_def verify_constitutional_compliance_def Let_def)

text \<open>Not-a-number as the amount: the call still returns 1 and settles.\<close>

theorem payment_always_settles_witness:
  "fst (process_lightning_payment 0 device2 NaN) = 1
   \<and> payment_status (fst (snd (process_lightning_payment 0 device2 NaN))) = PAYMENT_SETTLED
   \<and> payment_status device2 = PAYMENT_PENDING"
  using payment_always_settles [of 0 device2 NaN]
  by (simp add: device2_def zero_device_def)

section \<open>Zero-knowledge proofs and persistence\<close>

lemma fold_and_matches:
  "m = 0 \<or> m = 1 \<Longrightarrow>
     fold (\<lambda>i matches. matches AND (if P i then 1 else 0)) xs (m :: int) =
       (if m = 1 \<and> (\<forall>i \<in> set xs. P i) then 1 else 0)"
  by (induction xs arbitrary: m) auto

lemma verify_proof_iff:
  "verify_proof SHA256 ctx zproof zid =
     (if \<forall>i<32. proof_digest zproof ! i = SHA256 (take 32 (hash zid) @ take 32 (challenge zproof)) ! i
      then 1 else 0)"
  by (simp add: verify_proof_def SHA256_DIGEST_LENGTH_def fold_and_matches)

text \<open>
  C4. For every digest function in the place of SHA256, every context, ZeroID and 32-byte
  challenge, \<^verbatim>\<open>create_proof\<close> returns a proof whose digest is the hash of the ZeroID
  hash followed by the challenge, and \<^verbatim>\<open>verify_proof\<close> returns 1 on it. For every proof
  whose digest differs in at least one of its 32 bytes from the hash of the ZeroID hash
  followed by the proof's challenge, \<^verbatim>\<open>verify_proof\<close> returns 0.
\<close>

theorem proof_round_trip_and_tamper:
  "(length chal = 32 \<longrightarrow>
      (\<exists>zproof. create_proof SHA256 now ctx zid chal 32 = Some zproof
             \<and> proof_digest zproof = SHA256 (take 32 (hash zid) @ chal)
             \<and> verify_proof SHA256 ctx zproof zid = 1))
   \<and> ((\<exists>i<32. proof_digest forged ! i
                  \<noteq> SHA256 (take 32 (hash zid) @ take 32 (challenge forged)) ! i)
        \<longrightarrow> verify_proof SHA256 ctx forged zid = 0)"
proof (intro conjI impI)
  assume len: "length chal = 32"
  let ?zproof = "\<lparr>proof_digest = SHA256 (take 32 (hash zid) @ chal), challenge = chal,
               proof_timestamp = now\<rparr>"
  have "create_proof SHA256 now ctx zid chal 32 = Some ?zproof"
    using len by (simp add: create_proof_def)
  moreover have "verify_proof SHA256 ctx ?zproof zid = 1"
    using len by (simp add: verify_proof_iff)
  ultimately show "\<exists>zproof. create_proof SHA256 now ctx zid chal 32 = Some zproof
             \<and> proof_digest zproof = SHA256 (take 32 (hash zid) @ chal)
             \<and> verify_proof SHA256 ctx zproof zid = 1"
    by simp
next
  assume "\<exists>i<32. proof_digest forged ! i
                  \<noteq> SHA256 (take 32 (hash zid) @ take 32 (challenge forged)) ! i"
  then show "verify_proof SHA256 ctx forged zid = 0"
    by (auto simp: verify_proof_iff)
qed

text \<open>A run with the stand-in digest: the proof made for the challenge 100, ..., 131
  verifies, and a proof with an all-zero digest for the same challenge does not.\<close>

theorem proof_round_trip_and_tamper_witness:
  "length (map of_nat [100..<132] :: byte list) = 32
   \<and> (\<exists>zproof. create_proof toy_digest 0 zero_context alice_zid (map of_nat [100..<132]) 32 = Some zproof
            \<and> verify_proof toy_digest zero_context zproof alice_zid = 1)
   \<and> verify_proof toy_digest zero_context
        \<lparr>proof_digest = replicate 32 0, challenge = map of_nat [100..<132], proof_timestamp = 0\<rparr>
        alice_zid = 0"
proof -
  let ?forged = "\<lparr>proof_digest = replicate 32 0, challenge = map of_nat [100..<132] :: byte list,
                  proof_timestamp = 0 :: int\<rparr>"
  have len: "length (map of_nat [100..<132] :: byte list) = 32" by simp
  have "toy_digest (take 32 (hash alice_zid) @ take 32 (challenge ?forged)) ! 0 = 1"
    by (simp add: toy_digest_def alice_zid_def upt_rec)
  then have diff: "\<exists>i<32. proof_digest ?forged ! i
      \<noteq> toy_digest (take 32 (hash alice_zid) @ take 32 (challenge ?forged)) ! i"
    by (intro exI [of _ 0]) simp
  show ?thesis
    using proof_round_trip_and_tamper
      [of "map of_nat [100..<132]" toy_digest 0 zero_context alice_zid ?forged] len diff
    by blast
qed




end
